theory Spec2Isabelle
  imports Main "HOL-Library.Multiset"
begin

section \<open>Errors\<close>

text \<open>
  Every failure of the program is a JavaScript \<open>Error\<close> that is thrown (a rejected
  promise). The constructors name the failures that the modelled statements can produce;
  \<open>message\<close> is the text the route handlers inspect with \<open>error.message?.includes(...)\<close>.
  \<^item> \<open>NotInitialized\<close>: thrown by \<open>getDb\<close> (db/database.ts).
  \<^item> \<open>SqlSyntaxError w\<close>: the SQL engine rejects a statement at the word \<open>w\<close>.
  \<^item> \<open>SqlError m\<close>: any other failure of preparing a statement.
  \<^item> \<open>UniqueFailed c\<close>, \<open>NotNullFailed c\<close>: constraint violations on column \<open>c\<close>.
  \<^item> \<open>TypeError m\<close>: calling a binding that is \<open>undefined\<close>.
\<close>

datatype error =
    NotInitialized
  | SqlSyntaxError string
  | SqlError string
  | UniqueFailed string
  | NotNullFailed string
  | TypeError string

fun message :: "error \<Rightarrow> string" where
  "message NotInitialized = ''Database no initialized. Call connectDb first.''"
| "message (SqlSyntaxError w) =
     ''SQLITE_ERROR: near '' @ [CHR 0x22] @ w @ [CHR 0x22] @ '': syntax error''"
| "message (SqlError m) = ''SQLITE_ERROR: '' @ m"
| "message (UniqueFailed c) = ''SQLITE_CONSTRAINT: UNIQUE constraint failed: users.'' @ c"
| "message (NotNullFailed c) = ''SQLITE_CONSTRAINT: NOT NULL constraint failed: users.'' @ c"
| "message (TypeError m) = m"

text \<open>\<open>String.prototype.includes\<close>: does \<open>sub\<close> occur in \<open>s\<close> as a contiguous run.\<close>

fun starts_with :: "string \<Rightarrow> string \<Rightarrow> bool" where
  "starts_with s [] = True"
| "starts_with [] (c # cs) = False"
| "starts_with (d # ds) (c # cs) = (d = c \<and> starts_with ds cs)"

fun str_includes :: "string \<Rightarrow> string \<Rightarrow> bool" where
  "str_includes [] sub = (sub = [])"
| "str_includes (d # ds) sub = (starts_with (d # ds) sub \<or> str_includes ds sub)"


section \<open>Data model (models/User.ts)\<close>

text \<open>
  \<^verbatim>\<open>
  export interface User { id?: number; name: string; email: string; created_at?: string; }
  export interface UserInput { name: string; email: string; }
  \<close>
  \<open>User\<close> extends \<open>UserInput\<close> by the two optional fields; \<open>None\<close> is an absent
  (or NULL) field. The field \<open>id\<close> is written \<open>id'\<close> because \<open>id\<close> is the identity
  function of HOL. A timestamp is the clock reading in seconds: the text
  \<open>YYYY-MM-DD HH:MM:SS\<close> that \<open>CURRENT_TIMESTAMP\<close> stores compares as the seconds do.
\<close>

record UserInput =
  name :: string
  email :: string

record User = UserInput +
  id' :: "int option"
  created_at :: "nat option"


section \<open>The record store: one SQL table\<close>

subsection \<open>Column definitions of \<open>CREATE TABLE\<close>\<close>

text \<open>
  A column definition is its list of words. The engine reads the column name, then a type
  name made of the following words up to the first reserved word, then the column
  constraints. \<open>KEY\<close> is not a reserved word (it may be used as an identifier), while
  \<open>PRIMARY\<close>, \<open>AUTOINCREMENT\<close>, \<open>NOT\<close>, \<open>NULL\<close>, \<open>UNIQUE\<close> and \<open>DEFAULT\<close>
  are; so \<open>INTEGER PROMARU KEY\<close> is just a type name of three words. The constraint
  forms covered are those that occur in the repository: \<open>PRIMARY KEY [AUTOINCREMENT]\<close>,
  \<open>NOT NULL\<close>, \<open>UNIQUE\<close> and \<open>DEFAULT CURRENT_TIMESTAMP\<close>; a word that starts none of
  them is a syntax error at that word. Keywords are matched in upper case, as the
  repository writes them.
\<close>

record column =
  cname :: string
  ctype :: "string list"
  primary_key :: bool
  autoincrement :: bool
  not_null :: bool
  is_unique :: bool
  default_now :: bool

definition reserved :: "string list" where
  "reserved = [''PRIMARY'', ''AUTOINCREMENT'', ''NOT'', ''NULL'', ''UNIQUE'', ''DEFAULT'',
               ''CHECK'', ''REFERENCES'', ''COLLATE'', ''CONSTRAINT'']"

fun constraints :: "column \<Rightarrow> string list \<Rightarrow> error + column" where
  "constraints c [] = Inr c"
| "constraints c (w # ws) =
     (if w = ''PRIMARY'' then
        (case ws of
           [] \<Rightarrow> Inl (SqlError ''incomplete input'')
         | k # ws1 \<Rightarrow>
             if k \<noteq> ''KEY'' then Inl (SqlSyntaxError k)
             else (case ws1 of
                     [] \<Rightarrow> Inr (c\<lparr>primary_key := True\<rparr>)
                   | a # ws2 \<Rightarrow>
                       if a = ''AUTOINCREMENT''
                       then constraints (c\<lparr>primary_key := True, autoincrement := True\<rparr>) ws2
                       else constraints (c\<lparr>primary_key := True\<rparr>) (a # ws2)))
      else if w = ''NOT'' then
        (case ws of
           [] \<Rightarrow> Inl (SqlError ''incomplete input'')
         | n # ws1 \<Rightarrow>
             if n \<noteq> ''NULL'' then Inl (SqlSyntaxError n)
             else constraints (c\<lparr>not_null := True\<rparr>) ws1)
      else if w = ''UNIQUE'' then constraints (c\<lparr>is_unique := True\<rparr>) ws
      else if w = ''DEFAULT'' then
        (case ws of
           [] \<Rightarrow> Inl (SqlError ''incomplete input'')
         | d # ws1 \<Rightarrow>
             if d \<noteq> ''CURRENT_TIMESTAMP'' then Inl (SqlSyntaxError d)
             else constraints (c\<lparr>default_now := True\<rparr>) ws1)
      else Inl (SqlSyntaxError w))"

definition parse_column :: "string list \<Rightarrow> error + column" where
  "parse_column ws =
     (case ws of
        [] \<Rightarrow> Inl (SqlError ''incomplete input'')
      | n # rest \<Rightarrow>
          constraints
            \<lparr>cname = n, ctype = takeWhile (\<lambda>w. w \<notin> set reserved) rest,
             primary_key = False, autoincrement = False, not_null = False,
             is_unique = False, default_now = False\<rparr>
            (dropWhile (\<lambda>w. w \<notin> set reserved) rest))"

fun parse_columns :: "string list list \<Rightarrow> error + column list" where
  "parse_columns [] = Inr []"
| "parse_columns (d # ds) =
     (case parse_column d of
        Inl e \<Rightarrow> Inl e
      | Inr c \<Rightarrow> (case parse_columns ds of Inl e \<Rightarrow> Inl e | Inr cs \<Rightarrow> Inr (c # cs)))"

text \<open>
  A column is an alias of the table's row id exactly when it is declared
  \<open>INTEGER PRIMARY KEY\<close>; \<open>AUTOINCREMENT\<close> is accepted on such a column only.
\<close>

definition rowid_alias :: "column \<Rightarrow> bool" where
  "rowid_alias c = (primary_key c \<and> ctype c = [''INTEGER''])"

definition autoincrement_ok :: "column list \<Rightarrow> bool" where
  "autoincrement_ok cs = list_all (\<lambda>c. autoincrement c \<longrightarrow> rowid_alias c) cs"


subsection \<open>Tables and the store\<close>

text \<open>
  A table keeps its schema, its rows in row-id order (each with its row id) and, for an
  \<open>AUTOINCREMENT\<close> table, the largest row id ever assigned (\<open>sqlite_sequence\<close>).
  The store is the module variable \<open>db\<close> of db/database.ts (assigned or not) and
  the content of the database file: the \<open>users\<close> table, if the file has one.
\<close>

record table =
  schema :: "column list"
  rows :: "(int \<times> User) list"
  seq :: int

record store =
  db :: bool
  users :: "table option"

text \<open>
  The statement of \<open>connectDb\<close>, word for word (db/database.ts, lines 13 to 18):
  \<^verbatim>\<open>
  CREATE TABLE IF NOT EXISTS users (
      id INTEGER PROMARU KEY AUTOINCREMENT,
      name TEXT NOT NULL,
      email TEXT UNIQUE NOT NULL,
      created_at DATETIME DEFAULT CURRENT_TIMESTAMP
  )
  \<close>
\<close>

definition users_columns :: "string list list" where
  "users_columns =
     [[''id'', ''INTEGER'', ''PROMARU'', ''KEY'', ''AUTOINCREMENT''],
      [''name'', ''TEXT'', ''NOT'', ''NULL''],
      [''email'', ''TEXT'', ''UNIQUE'', ''NOT'', ''NULL''],
      [''created_at'', ''DATETIME'', ''DEFAULT'', ''CURRENT_TIMESTAMP'']]"

text \<open>
  The statement as the repository's README.md documents it (STEP 4): the same, with
  \<open>id INTEGER PRIMARY KEY AUTOINCREMENT\<close>.
\<close>

definition readme_columns :: "string list list" where
  "readme_columns =
     [[''id'', ''INTEGER'', ''PRIMARY'', ''KEY'', ''AUTOINCREMENT''],
      [''name'', ''TEXT'', ''NOT'', ''NULL''],
      [''email'', ''TEXT'', ''UNIQUE'', ''NOT'', ''NULL''],
      [''created_at'', ''DATETIME'', ''DEFAULT'', ''CURRENT_TIMESTAMP'']]"

text \<open>
  \<open>CREATE TABLE IF NOT EXISTS users (...)\<close>: the statement is parsed first, so a syntax
  error is raised whether or not the table exists; an existing table is then left as it
  is; otherwise the empty table is created.
\<close>

definition create_table_if_not_exists :: "string list list \<Rightarrow> table option \<Rightarrow> error + table option" where
  "create_table_if_not_exists defs tb =
     (case parse_columns defs of
        Inl e \<Rightarrow> Inl e
      | Inr cs \<Rightarrow>
          (case tb of
             Some t \<Rightarrow> Inr (Some t)
           | None \<Rightarrow>
               if \<not> autoincrement_ok cs
               then Inl (SqlError ''AUTOINCREMENT is only allowed on an INTEGER PRIMARY KEY'')
               else Inr (Some \<lparr>schema = cs, rows = [], seq = 0\<rparr>)))"

text \<open>
  db/database.ts: \<open>connectDb\<close> assigns \<open>db\<close> (opening creates the file if it is absent)
  and then executes the statement; \<open>getDb\<close> throws while \<open>db\<close> is unassigned.
\<close>

definition connectDb :: "store \<Rightarrow> (error + unit) \<times> store" where
  "connectDb st =
     (let st1 = st\<lparr>db := True\<rparr>
      in case create_table_if_not_exists users_columns (users st1) of
           Inl e \<Rightarrow> (Inl e, st1)
         | Inr tb \<Rightarrow> (Inr (), st1\<lparr>users := tb\<rparr>))"

definition getDb :: "store \<Rightarrow> error + unit" where
  "getDb st = (if \<not> db st then Inl NotInitialized else Inr ())"

text \<open>
  The schema that the documented statement declares (\<open>parse_readme_columns\<close> below):
  the data model of the specification, with \<open>id\<close> the integer primary key, \<open>email\<close>
  unique and \<open>created_at\<close> defaulting to the time of creation.
\<close>

definition users_schema :: "column list" where
  "users_schema =
     [\<lparr>cname = ''id'', ctype = [''INTEGER''], primary_key = True, autoincrement = True,
       not_null = False, is_unique = False, default_now = False\<rparr>,
      \<lparr>cname = ''name'', ctype = [''TEXT''], primary_key = False, autoincrement = False,
       not_null = True, is_unique = False, default_now = False\<rparr>,
      \<lparr>cname = ''email'', ctype = [''TEXT''], primary_key = False, autoincrement = False,
       not_null = True, is_unique = True, default_now = False\<rparr>,
      \<lparr>cname = ''created_at'', ctype = [''DATETIME''], primary_key = False,
       autoincrement = False, not_null = False, is_unique = False, default_now = True\<rparr>]"


subsection \<open>The statements the service executes\<close>

text \<open>
  A cell of a row, by column name. The only writers of \<open>name\<close> and \<open>email\<close> bind
  text parameters, so these two cells are never NULL.
\<close>

datatype sqlval = Null | Integer int | Text string | Timestamp nat

definition cell :: "User \<Rightarrow> string \<Rightarrow> sqlval" where
  "cell r c =
     (if c = ''id'' then (case id' r of None \<Rightarrow> Null | Some i \<Rightarrow> Integer i)
      else if c = ''name'' then Text (name r)
      else if c = ''email'' then Text (email r)
      else if c = ''created_at'' then (case created_at r of None \<Rightarrow> Null | Some t \<Rightarrow> Timestamp t)
      else Null)"

definition column_of :: "column list \<Rightarrow> string \<Rightarrow> column option" where
  "column_of sch n = find (\<lambda>c. cname c = n) sch"

definition has_column :: "column list \<Rightarrow> string \<Rightarrow> bool" where
  "has_column sch n = (column_of sch n \<noteq> None)"

definition column_has :: "column list \<Rightarrow> string \<Rightarrow> (column \<Rightarrow> bool) \<Rightarrow> bool" where
  "column_has sch n p = (case column_of sch n of None \<Rightarrow> False | Some c \<Rightarrow> p c)"

text \<open>
  The row id of a new row is one more than the largest row id of the table (1 for an
  empty table); with \<open>AUTOINCREMENT\<close> it is also larger than every row id assigned
  before. (Row ids are 64-bit; the model does not bound them.)
\<close>

definition max_rowid :: "(int \<times> User) list \<Rightarrow> int" where
  "max_rowid rs = (case rs of [] \<Rightarrow> 0 | r # rs1 \<Rightarrow> fold (\<lambda>q m. max (fst q) m) rs1 (fst r))"

definition next_rowid :: "table \<Rightarrow> int" where
  "next_rowid t =
     (if list_ex autoincrement (schema t) then max (max_rowid (rows t)) (seq t)
      else max_rowid (rows t)) + 1"

text \<open>
  Constraint checks. \<open>null_column\<close> is the first \<open>NOT NULL\<close> column in which the row
  is NULL. \<open>conflict\<close> is the first \<open>UNIQUE\<close> or \<open>PRIMARY KEY\<close> column in which the
  row \<open>r\<close> has the (non-NULL) value of another row of \<open>rs\<close>.
\<close>

definition null_column :: "column list \<Rightarrow> User \<Rightarrow> string option" where
  "null_column sch r =
     map_option cname (find (\<lambda>c. not_null c \<and> cell r (cname c) = Null) sch)"

definition conflict :: "column list \<Rightarrow> (int \<times> User) list \<Rightarrow> int \<times> User \<Rightarrow> string option" where
  "conflict sch rs r =
     map_option cname
       (find (\<lambda>c. (is_unique c \<or> primary_key c) \<and> cell (snd r) (cname c) \<noteq> Null \<and>
                  list_ex (\<lambda>q. fst q \<noteq> fst r \<and> cell (snd q) (cname c) = cell (snd r) (cname c)) rs)
             sch)"

text \<open>
  \<open>INSERT INTO users (name, email) VALUES (?, ?)\<close> at clock reading \<open>now\<close>: the
  result is \<open>lastID\<close> and the new table. A failed statement changes nothing.
\<close>

definition sql_insert :: "nat \<Rightarrow> UserInput \<Rightarrow> table \<Rightarrow> error + (int \<times> table)" where
  "sql_insert now u t =
     (if \<not> has_column (schema t) ''name'' then Inl (SqlError ''table users has no column named name'')
      else if \<not> has_column (schema t) ''email'' then Inl (SqlError ''table users has no column named email'')
      else
        let rid = next_rowid t;
            r = \<lparr>name = name u, email = email u,
                 id' = (if column_has (schema t) ''id'' rowid_alias then Some rid else None),
                 created_at = (if column_has (schema t) ''created_at'' default_now then Some now else None)\<rparr>
        in case null_column (schema t) r of
             Some c \<Rightarrow> Inl (NotNullFailed c)
           | None \<Rightarrow>
               (case conflict (schema t) (rows t) (rid, r) of
                  Some c \<Rightarrow> Inl (UniqueFailed c)
                | None \<Rightarrow>
                    Inr (rid, t\<lparr>rows := rows t @ [(rid, r)],
                                seq := (if list_ex autoincrement (schema t) then rid else seq t)\<rparr>)))"

text \<open>
  \<open>SELECT * FROM users WHERE id = ?\<close> through \<open>db.get\<close>: the first matching row or
  \<open>undefined\<close>. The parameter is a JavaScript number; \<open>None\<close> is \<open>NaN\<close>, which is
  bound as NULL and equals no cell.
\<close>

definition sql_select_by_id :: "int option \<Rightarrow> table \<Rightarrow> error + User option" where
  "sql_select_by_id i t =
     (if \<not> has_column (schema t) ''id'' then Inl (SqlError ''no such column: id'')
      else Inr (case i of
                  None \<Rightarrow> None
                | Some n \<Rightarrow> find (\<lambda>r. id' r = Some n) (map snd (rows t))))"

text \<open>
  \<open>SELECT * FROM users ORDER BY created_at DESC\<close>: NULL sorts below every timestamp,
  so last. Rows with equal keys keep their row-id order here (SQL leaves the order of
  ties open).
\<close>

definition sort_key :: "User \<Rightarrow> nat" where
  "sort_key r = (case created_at r of None \<Rightarrow> 0 | Some t \<Rightarrow> Suc t)"

fun insert_desc :: "User \<Rightarrow> User list \<Rightarrow> User list" where
  "insert_desc x [] = [x]"
| "insert_desc x (y # ys) =
     (if sort_key y \<le> sort_key x then x # y # ys else y # insert_desc x ys)"

definition sql_select_all :: "table \<Rightarrow> error + User list" where
  "sql_select_all t =
     (if \<not> has_column (schema t) ''created_at'' then Inl (SqlError ''no such column: created_at'')
      else Inr (foldr insert_desc (map snd (rows t)) []))"

text \<open>
  \<open>UPDATE users SET name = ?, email = ? WHERE id = ?\<close>: every matching row gets the
  new name and email; the statement fails, changing nothing, when an updated row then
  conflicts with another row.
\<close>

definition matches :: "int option \<Rightarrow> int \<times> User \<Rightarrow> bool" where
  "matches i r = (i \<noteq> None \<and> id' (snd r) = i)"

definition update_row :: "UserInput \<Rightarrow> int option \<Rightarrow> int \<times> User \<Rightarrow> int \<times> User" where
  "update_row u i r =
     (if matches i r then (fst r, (snd r)\<lparr>name := name u, email := email u\<rparr>) else r)"

definition sql_update :: "UserInput \<Rightarrow> int option \<Rightarrow> table \<Rightarrow> error + table" where
  "sql_update u i t =
     (if \<not> has_column (schema t) ''name'' then Inl (SqlError ''no such column: name'')
      else if \<not> has_column (schema t) ''email'' then Inl (SqlError ''no such column: email'')
      else if \<not> has_column (schema t) ''id'' then Inl (SqlError ''no such column: id'')
      else
        let rs = map (update_row u i) (rows t)
        in case List.map_filter (conflict (schema t) rs) (filter (matches i) rs) of
             c # _ \<Rightarrow> Inl (UniqueFailed c)
           | [] \<Rightarrow> Inr (t\<lparr>rows := rs\<rparr>))"


section \<open>Persistence service (models/UserService.ts)\<close>

text \<open>
  Each function first calls \<open>getDb()\<close>, then runs its statement, which fails with
  \<open>no such table: users\<close> when the database file has no such table.
\<close>

definition users_table :: "store \<Rightarrow> error + table" where
  "users_table st =
     (case getDb st of
        Inl e \<Rightarrow> Inl e
      | Inr _ \<Rightarrow> (case users st of None \<Rightarrow> Inl (SqlError ''no such table: users'') | Some t \<Rightarrow> Inr t))"

definition getAllUsers :: "store \<Rightarrow> error + User list" where
  "getAllUsers st = (case users_table st of Inl e \<Rightarrow> Inl e | Inr t \<Rightarrow> sql_select_all t)"

definition getUserById :: "int option \<Rightarrow> store \<Rightarrow> error + User option" where
  "getUserById i st = (case users_table st of Inl e \<Rightarrow> Inl e | Inr t \<Rightarrow> sql_select_by_id i t)"

text \<open>
  \<open>createUser\<close> returns \<open>{ id: result.lastID, ...user }\<close>: the id and the fields of
  the input, which is typed \<open>UserInput\<close> (name and email), and no \<open>created_at\<close>. The
  row is not read back. The clock reading \<open>now\<close> is what \<open>CURRENT_TIMESTAMP\<close> gives
  when the statement runs.
\<close>

definition createUser :: "nat \<Rightarrow> UserInput \<Rightarrow> store \<Rightarrow> (error + User) \<times> store" where
  "createUser now u st =
     (case users_table st of
        Inl e \<Rightarrow> (Inl e, st)
      | Inr t \<Rightarrow>
          (case sql_insert now u t of
             Inl e \<Rightarrow> (Inl e, st)
           | Inr (lastID, t1) \<Rightarrow>
               (Inr \<lparr>name = name u, email = email u, id' = Some lastID, created_at = None\<rparr>,
                st\<lparr>users := Some t1\<rparr>)))"

definition updateUser :: "int option \<Rightarrow> UserInput \<Rightarrow> store \<Rightarrow> (error + User option) \<times> store" where
  "updateUser i u st =
     (case users_table st of
        Inl e \<Rightarrow> (Inl e, st)
      | Inr t \<Rightarrow>
          (case sql_update u i t of
             Inl e \<Rightarrow> (Inl e, st)
           | Inr t1 \<Rightarrow> (getUserById i (st\<lparr>users := Some t1\<rparr>), st\<lparr>users := Some t1\<rparr>)))"

text \<open>
  \<open>deleteUser\<close> is commented out in models/UserService.ts (lines 40 to 44), so the module
  exports no such function and the binding that routes/userRoutes.ts imports is
  \<open>undefined\<close>: \<open>None\<close> here.
\<close>

definition deleteUser :: "(int option \<Rightarrow> store \<Rightarrow> (error + bool) \<times> store) option" where
  "deleteUser = None"


section \<open>HTTP resource layer (routes/userRoutes.ts)\<close>

text \<open>
  \<open>parseInt(req.params.id)\<close> with no radix: leading white space is skipped, then an
  optional sign, then \<open>0x\<close> or \<open>0X\<close> selects radix 16, then the longest run of digits
  of the radix is read; no digit gives \<open>NaN\<close> (\<open>None\<close>). The result is an integer of any
  size here (a JavaScript number rounds above \<open>2^53\<close>), and a \<open>char\<close> is a byte, so only
  the ASCII white space is covered.
\<close>

definition is_space :: "char \<Rightarrow> bool" where
  "is_space c = (c \<in> set [CHR 0x09, CHR 0x0A, CHR 0x0B, CHR 0x0C, CHR 0x0D, CHR 0x20])"

definition digit_val :: "char \<Rightarrow> nat option" where
  "digit_val c =
     (let n = (of_char c :: nat)
      in if 48 \<le> n \<and> n \<le> 57 then Some (n - 48)
         else if 97 \<le> n \<and> n \<le> 122 then Some (n - 87)
         else if 65 \<le> n \<and> n \<le> 90 then Some (n - 55)
         else None)"

fun digits :: "nat \<Rightarrow> string \<Rightarrow> nat list" where
  "digits R [] = []"
| "digits R (c # cs) =
     (case digit_val c of
        None \<Rightarrow> []
      | Some d \<Rightarrow> if d < R then d # digits R cs else [])"

definition parseInt :: "string \<Rightarrow> int option" where
  "parseInt s =
     (let t = dropWhile is_space s;
          neg = starts_with t ''-'';
          t1 = (if starts_with t ''-'' \<or> starts_with t ''+'' then drop 1 t else t);
          hex = (starts_with t1 ''0x'' \<or> starts_with t1 ''0X'');
          R = (if hex then 16 else 10);
          ds = digits R (if hex then drop 2 t1 else t1)
      in if ds = [] then None
         else Some ((if neg then - 1 else 1) * int (foldl (\<lambda>a d. a * R + d) 0 ds)))"

text \<open>
  A response is a status and a JSON body; \<open>res.json(x)\<close> without \<open>res.status\<close> is 200.
  A request body is the parsed JSON object, typed \<open>UserInput\<close> by the handlers: each of
  the two fields is a string or is missing (\<open>None\<close>). \<open>!x\<close> holds of a missing and of an
  empty string.
\<close>

datatype body = NoBody | ErrorJson string | UserJson User | UsersJson "User list"

record response =
  status :: nat
  body :: body

record request_body =
  body_name :: "string option"
  body_email :: "string option"

definition falsy :: "string option \<Rightarrow> bool" where
  "falsy v = (v = None \<or> v = Some [])"

definition text_of :: "string option \<Rightarrow> string" where
  "text_of v = (case v of None \<Rightarrow> [] | Some s \<Rightarrow> s)"

definition router_get_all :: "store \<Rightarrow> response" where
  "router_get_all st =
     (case getAllUsers st of
        Inr us \<Rightarrow> \<lparr>status = 200, body = UsersJson us\<rparr>
      | Inl e \<Rightarrow> \<lparr>status = 500, body = ErrorJson ''Failed to retrieve users''\<rparr>)"

definition router_get_id :: "string \<Rightarrow> store \<Rightarrow> response" where
  "router_get_id p st =
     (case getUserById (parseInt p) st of
        Inr None \<Rightarrow> \<lparr>status = 404, body = ErrorJson ''User not found''\<rparr>
      | Inr (Some u) \<Rightarrow> \<lparr>status = 200, body = UserJson u\<rparr>
      | Inl e \<Rightarrow> \<lparr>status = 500, body = ErrorJson ''Failed to retrieve user''\<rparr>)"

definition router_post :: "nat \<Rightarrow> request_body \<Rightarrow> store \<Rightarrow> response \<times> store" where
  "router_post now b st =
     (if falsy (body_name b) \<or> falsy (body_email b)
      then (\<lparr>status = 400, body = ErrorJson ''Name and email are required''\<rparr>, st)
      else
        (case createUser now \<lparr>name = text_of (body_name b), email = text_of (body_email b)\<rparr> st of
           (Inr newUser, st1) \<Rightarrow> (\<lparr>status = 201, body = UserJson newUser\<rparr>, st1)
         | (Inl e, st1) \<Rightarrow>
             (if str_includes (message e) ''UNIQUE constraint failed''
              then \<lparr>status = 409, body = ErrorJson ''Email already exists''\<rparr>
              else \<lparr>status = 500, body = ErrorJson ''Failed to create user''\<rparr>, st1)))"

definition router_put :: "string \<Rightarrow> request_body \<Rightarrow> store \<Rightarrow> response \<times> store" where
  "router_put p b st =
     (let i = parseInt p
      in if falsy (body_name b) \<or> falsy (body_email b)
         then (\<lparr>status = 400, body = ErrorJson ''Name and email are required''\<rparr>, st)
         else
           (case updateUser i \<lparr>name = text_of (body_name b), email = text_of (body_email b)\<rparr> st of
              (Inr None, st1) \<Rightarrow> (\<lparr>status = 404, body = ErrorJson ''User not found''\<rparr>, st1)
            | (Inr (Some user), st1) \<Rightarrow> (\<lparr>status = 200, body = UserJson user\<rparr>, st1)
            | (Inl e, st1) \<Rightarrow>
                (if str_includes (message e) ''UNIQUE constraint failed''
                 then \<lparr>status = 409, body = ErrorJson ''Email already exists''\<rparr>
                 else \<lparr>status = 500, body = ErrorJson ''Failed to update user''\<rparr>, st1)))"

text \<open>
  The delete handler calls the imported \<open>deleteUser\<close>; calling \<open>undefined\<close> throws a
  \<open>TypeError\<close> inside the handler's \<open>try\<close>, and its \<open>catch\<close> answers 500 whatever the
  error is.
\<close>

definition router_delete :: "string \<Rightarrow> store \<Rightarrow> response \<times> store" where
  "router_delete p st =
     (let i = parseInt p;
          r = (case deleteUser of
                 None \<Rightarrow> (Inl (TypeError ''deleteUser is not a function''), st)
               | Some f \<Rightarrow> f i st)
      in case r of
           (Inl e, st1) \<Rightarrow> (\<lparr>status = 500, body = ErrorJson ''Failed to delete user''\<rparr>, st1)
         | (Inr success, st1) \<Rightarrow>
             (if \<not> success then \<lparr>status = 404, body = ErrorJson ''User not found''\<rparr>
              else \<lparr>status = 204, body = NoBody\<rparr>, st1))"


section \<open>Reachable stores and the invariant of a table\<close>

text \<open>
  The stores that a sequence of create, update and delete operations leads to from
  \<open>st0\<close>, whether an operation succeeds or fails.
\<close>

inductive reachable :: "store \<Rightarrow> store \<Rightarrow> bool" for st0 :: store where
  start: "reachable st0 st0"
| create: "reachable st0 st \<Longrightarrow> reachable st0 (snd (createUser now u st))"
| update: "reachable st0 st \<Longrightarrow> reachable st0 (snd (updateUser i u st))"
| delete: "reachable st0 st \<Longrightarrow> reachable st0 (snd (router_delete p st))"

text \<open>
  A store is ready when \<open>db\<close> is assigned and the database file holds a \<open>users\<close> table
  of the documented schema whose rows are as the statements above leave them: the
  \<open>id\<close> cell is the row id, row ids are positive, distinct and at most \<open>seq\<close>, every
  row has its timestamp, and no two rows have the same email.
\<close>

definition wf_rows :: "(int \<times> User) list \<Rightarrow> int \<Rightarrow> bool" where
  "wf_rows rs sq =
     (0 \<le> sq \<and> distinct (map fst rs) \<and> distinct (map (\<lambda>r. email (snd r)) rs) \<and>
      list_all (\<lambda>r. id' (snd r) = Some (fst r) \<and> 0 < fst r \<and> fst r \<le> sq \<and>
                     created_at (snd r) \<noteq> None) rs)"

definition ready :: "store \<Rightarrow> bool" where
  "ready st =
     (db st \<and>
      (case users st of
         None \<Rightarrow> False
       | Some t \<Rightarrow> schema t = users_schema \<and> wf_rows (rows t) (seq t)))"

definition emails :: "store \<Rightarrow> string list" where
  "emails st = (case users st of None \<Rightarrow> [] | Some t \<Rightarrow> map (\<lambda>r. email (snd r)) (rows t))"

definition records :: "store \<Rightarrow> User list" where
  "records st = (case users st of None \<Rightarrow> [] | Some t \<Rightarrow> map snd (rows t))"

text \<open>The store after the documented initialisation of an empty database file.\<close>

definition initialized :: store where
  "initialized = \<lparr>db = True, users = Some \<lparr>schema = users_schema, rows = [], seq = 0\<rparr>\<rparr>"


section \<open>Example stores\<close>

text \<open>Three inputs and the stores after creating them at clock readings 5, 7 and 9.\<close>

definition ann :: UserInput where "ann = \<lparr>name = ''Ann'', email = ''ann@x.com''\<rparr>"
definition bob :: UserInput where "bob = \<lparr>name = ''Bob'', email = ''bob@x.com''\<rparr>"
definition store1 :: store where "store1 = snd (createUser 5 ann initialized)"
definition store2 :: store where "store2 = snd (createUser 7 bob store1)"
definition carol :: UserInput where "carol = \<lparr>name = ''Carol'', email = ''carol@x.com''\<rparr>"
definition store3 :: store where "store3 = snd (createUser 9 carol store2)"


section \<open>Initialisation\<close>

lemma parse_users_columns:
  "parse_columns users_columns = Inl (SqlSyntaxError ''AUTOINCREMENT'')"
  by (simp add: users_columns_def parse_column_def reserved_def)

lemma parse_readme_columns: "parse_columns readme_columns = Inr users_schema"
  by (simp add: readme_columns_def parse_column_def reserved_def users_schema_def)

text \<open>
  With the documented statement, initialisation creates the empty table and leaves an
  existing table as it is.
\<close>

lemma create_table_readme:
  "create_table_if_not_exists readme_columns None = Inr (users initialized)"
  "create_table_if_not_exists readme_columns (Some t) = Inr (Some t)"
  by (simp_all add: create_table_if_not_exists_def parse_readme_columns initialized_def
      autoincrement_ok_def users_schema_def rowid_alias_def)


section \<open>The statements on a table of the documented schema\<close>

lemma has_column_users_schema:
  "has_column users_schema ''name''" "has_column users_schema ''email''"
  "has_column users_schema ''id''" "has_column users_schema ''created_at''"
  by (simp_all add: has_column_def column_of_def users_schema_def)

lemma column_has_users_schema:
  "column_has users_schema ''id'' rowid_alias"
  "column_has users_schema ''created_at'' default_now"
  "list_ex autoincrement users_schema"
  by (simp_all add: column_has_def column_of_def users_schema_def rowid_alias_def)

lemma null_column_users_schema: "null_column users_schema r = None"
  by (simp add: null_column_def users_schema_def cell_def)

lemma conflict_users_schema:
  "conflict users_schema rs r =
     (if id' (snd r) \<noteq> None \<and> (\<exists>q\<in>set rs. fst q \<noteq> fst r \<and> id' (snd q) = id' (snd r))
      then Some ''id''
      else if \<exists>q\<in>set rs. fst q \<noteq> fst r \<and> email (snd q) = email (snd r) then Some ''email''
      else None)"
  by (auto simp add: conflict_def users_schema_def cell_def list_ex_iff split: option.splits)

lemma fold_max_le:
  "m \<le> sq \<Longrightarrow> list_all (\<lambda>r. fst r \<le> sq) rs \<Longrightarrow> fold (\<lambda>q m. max (fst q) m) rs m \<le> (sq::int)"
  by (induction rs arbitrary: m) auto

lemma max_rowid_le: "0 \<le> sq \<Longrightarrow> list_all (\<lambda>r. fst r \<le> sq) rs \<Longrightarrow> max_rowid rs \<le> sq"
  by (cases rs) (auto simp add: max_rowid_def fold_max_le)

lemma wf_rows_fresh:
  assumes "wf_rows rs sq" "q \<in> set rs"
  shows "fst q \<noteq> sq + 1" "id' (snd q) \<noteq> Some (sq + 1)" "id' (snd q) = Some (fst q)"
  using assms by (auto simp add: wf_rows_def list_all_iff)

lemma next_rowid_ready:
  assumes "schema t = users_schema" "wf_rows (rows t) (seq t)"
  shows "next_rowid t = seq t + 1"
proof -
  have "max_rowid (rows t) \<le> seq t"
    using assms(2) by (intro max_rowid_le) (auto simp add: wf_rows_def list_all_iff)
  then show ?thesis
    by (simp add: next_rowid_def assms(1) column_has_users_schema)
qed

lemma sql_insert_ready:
  assumes "schema t = users_schema" "wf_rows (rows t) (seq t)"
  shows "sql_insert now u t =
           (if email u \<in> set (map (\<lambda>r. email (snd r)) (rows t)) then Inl (UniqueFailed ''email'')
            else Inr (seq t + 1,
                      t\<lparr>rows := rows t @ [(seq t + 1, \<lparr>name = name u, email = email u,
                                                     id' = Some (seq t + 1), created_at = Some now\<rparr>)],
                        seq := seq t + 1\<rparr>))"
proof -
  have noid: "\<not> (\<exists>q\<in>set (rows t). fst q \<noteq> seq t + 1 \<and> id' (snd q) = Some (seq t + 1))"
    using wf_rows_fresh(2)[OF assms(2)] by blast
  have fresh: "\<And>q. q \<in> set (rows t) \<Longrightarrow> fst q \<noteq> seq t + 1"
    using wf_rows_fresh(1)[OF assms(2)] by blast
  have conf: "(\<exists>q\<in>set (rows t). fst q \<noteq> seq t + 1 \<and> email (snd q) = email u) \<longleftrightarrow>
              email u \<in> set (map (\<lambda>r. email (snd r)) (rows t))"
    using fresh by (force simp add: image_iff)
  show ?thesis
    using noid
    by (simp add: sql_insert_def assms(1) has_column_users_schema column_has_users_schema
        next_rowid_ready[OF assms] null_column_users_schema conflict_users_schema Let_def conf
        del: set_map)
qed

lemma wf_rows_insert:
  assumes "wf_rows rs sq" "e \<notin> set (map (\<lambda>r. email (snd r)) rs)"
  shows "wf_rows (rs @ [(sq + 1, \<lparr>name = n, email = e, id' = Some (sq + 1), created_at = Some now\<rparr>)]) (sq + 1)"
  using assms by (fastforce simp add: wf_rows_def list_all_iff)

lemma createUser_ready:
  assumes "ready st"
  shows "\<exists>t. users st = Some t \<and>
           createUser now u st =
             (if email u \<in> set (emails st) then (Inl (UniqueFailed ''email''), st)
              else (Inr \<lparr>name = name u, email = email u, id' = Some (seq t + 1), created_at = None\<rparr>,
                    st\<lparr>users := Some (t\<lparr>rows := rows t @ [(seq t + 1, \<lparr>name = name u, email = email u,
                                                     id' = Some (seq t + 1), created_at = Some now\<rparr>)],
                        seq := seq t + 1\<rparr>)\<rparr>))"
  using assms
  by (auto simp add: ready_def createUser_def users_table_def getDb_def emails_def sql_insert_ready
      split: option.splits)

lemma ready_createUser:
  assumes "ready st"
  shows "ready (snd (createUser now u st))"
proof -
  from createUser_ready[OF assms, of now u] obtain t where
    t: "users st = Some t" and
    eq: "createUser now u st =
             (if email u \<in> set (emails st) then (Inl (UniqueFailed ''email''), st)
              else (Inr \<lparr>name = name u, email = email u, id' = Some (seq t + 1), created_at = None\<rparr>,
                    st\<lparr>users := Some (t\<lparr>rows := rows t @ [(seq t + 1, \<lparr>name = name u, email = email u,
                                                     id' = Some (seq t + 1), created_at = Some now\<rparr>)],
                        seq := seq t + 1\<rparr>)\<rparr>))"
    by blast
  show ?thesis
  proof (cases "email u \<in> set (emails st)")
    case True
    then show ?thesis using eq assms by simp
  next
    case False
    have "wf_rows (rows t) (seq t)" "schema t = users_schema" "db st"
      using assms t by (auto simp add: ready_def)
    moreover have "email u \<notin> set (map (\<lambda>r. email (snd r)) (rows t))"
      using False t by (simp add: emails_def)
    ultimately show ?thesis
      using eq False wf_rows_insert[of "rows t" "seq t" "email u" "name u" now]
      by (simp add: ready_def)
  qed
qed

lemma case_map_filter_const:
  assumes "\<forall>x\<in>set xs. f x = None \<or> f x = Some c"
  shows "(case List.map_filter f xs of [] \<Rightarrow> B | d # ds \<Rightarrow> A d) =
         (if \<exists>x\<in>set xs. f x = Some c then A c else B)"
  using assms by (induction xs) (auto simp add: map_filter_simps split: option.splits)

lemma update_row_simps:
  "fst (update_row u i r) = fst r"
  "id' (snd (update_row u i r)) = id' (snd r)"
  "created_at (snd (update_row u i r)) = created_at (snd r)"
  "matches i (update_row u i r) = matches i r"
  "email (snd (update_row u i r)) = (if matches i r then email u else email (snd r))"
  "name (snd (update_row u i r)) = (if matches i r then name u else name (snd r))"
  by (simp_all add: update_row_def matches_def)

lemma wf_rows_one_match:
  assumes "wf_rows rs sq" "r \<in> set rs" "q \<in> set rs" "matches i r" "matches i q"
  shows "q = r"
proof -
  have "fst q = fst r"
    using assms by (auto simp add: wf_rows_def list_all_iff matches_def)
  moreover have "inj_on fst (set rs)"
    using assms(1) by (simp add: wf_rows_def distinct_map)
  ultimately show ?thesis using assms(2,3) by (auto dest: inj_onD)
qed

lemma wf_rows_fst_neq:
  assumes "wf_rows rs sq" "r \<in> set rs" "q \<in> set rs" "q \<noteq> r"
  shows "fst q \<noteq> fst r"
proof -
  have "inj_on fst (set rs)"
    using assms(1) by (simp add: wf_rows_def distinct_map)
  then show ?thesis using assms(2,3,4) by (auto dest: inj_onD)
qed

lemma update_conflict_iff:
  assumes "wf_rows rs sq"
  shows "(\<exists>r'\<in>set (filter (matches i) (map (update_row u i) rs)).
            conflict users_schema (map (update_row u i) rs) r' = Some ''email'') \<longleftrightarrow>
         (\<exists>r\<in>set rs. matches i r) \<and> (\<exists>q\<in>set rs. \<not> matches i q \<and> email (snd q) = email u)"
    (is "?L \<longleftrightarrow> ?R")
proof
  assume ?L
  then obtain r where r: "r \<in> set rs" "matches i r"
    and c: "conflict users_schema (map (update_row u i) rs) (update_row u i r) = Some ''email''"
    by (auto simp add: update_row_simps)
  from c obtain q where q: "q \<in> set rs" "fst q \<noteq> fst r"
      "email (snd (update_row u i q)) = email (snd (update_row u i r))"
    by (auto simp add: conflict_users_schema update_row_simps split: if_splits)
  have "\<not> matches i q"
    using wf_rows_one_match[OF assms r(1) q(1) r(2)] q(2) by auto
  with q r show ?R by (auto simp add: update_row_simps)
next
  assume ?R
  then obtain r q where r: "r \<in> set rs" "matches i r"
    and q: "q \<in> set rs" "\<not> matches i q" "email (snd q) = email u"
    by blast
  have ne: "fst q \<noteq> fst r"
    using wf_rows_fst_neq[OF assms r(1) q(1)] r(2) q(2) by auto
  have idr: "id' (snd r) = Some (fst r)" and idq: "\<And>p. p \<in> set rs \<Longrightarrow> id' (snd p) = Some (fst p)"
    using assms r(1) by (auto simp add: wf_rows_def list_all_iff)
  have noid: "\<not> (\<exists>p\<in>set rs. fst p \<noteq> fst r \<and> id' (snd p) = id' (snd r))"
    using idr idq by auto
  have "conflict users_schema (map (update_row u i) rs) (update_row u i r) = Some ''email''"
    using noid q ne r
    by (auto simp add: conflict_users_schema update_row_simps)
  then show ?L using r by (auto simp add: update_row_simps)
qed

lemma update_conflict_cases:
  assumes "wf_rows rs sq" "r' \<in> set (map (update_row u i) rs)"
  shows "conflict users_schema (map (update_row u i) rs) r' = None \<or>
         conflict users_schema (map (update_row u i) rs) r' = Some ''email''"
proof -
  have idq: "\<And>p. p \<in> set rs \<Longrightarrow> id' (snd p) = Some (fst p)"
    using assms(1) by (auto simp add: wf_rows_def list_all_iff)
  from assms(2) obtain r where "r \<in> set rs" "r' = update_row u i r" by auto
  then show ?thesis
    using idq by (auto simp add: conflict_users_schema update_row_simps)
qed

lemma sql_update_ready:
  assumes "schema t = users_schema" "wf_rows (rows t) (seq t)"
  shows "sql_update u i t =
           (if (\<exists>r\<in>set (rows t). matches i r) \<and>
               (\<exists>q\<in>set (rows t). \<not> matches i q \<and> email (snd q) = email u)
            then Inl (UniqueFailed ''email'')
            else Inr (t\<lparr>rows := map (update_row u i) (rows t)\<rparr>))"
proof -
  let ?rs = "map (update_row u i) (rows t)"
  have h: "\<forall>x\<in>set (filter (matches i) ?rs).
          conflict users_schema ?rs x = None \<or> conflict users_schema ?rs x = Some ''email''"
    using update_conflict_cases[OF assms(2)] by auto
  have "(case List.map_filter (conflict users_schema ?rs) (filter (matches i) ?rs) of
           [] \<Rightarrow> Inr (t\<lparr>rows := ?rs\<rparr>) | c # x \<Rightarrow> Inl (UniqueFailed c)) =
        (if \<exists>x\<in>set (filter (matches i) ?rs). conflict users_schema ?rs x = Some ''email''
         then Inl (UniqueFailed ''email'') else Inr (t\<lparr>rows := ?rs\<rparr>))"
    by (rule case_map_filter_const[OF h])
  then show ?thesis
    unfolding update_conflict_iff[OF assms(2)]
    by (simp add: sql_update_def assms(1) has_column_users_schema Let_def)
qed

lemma wf_rows_update:
  assumes wf: "wf_rows rs sq"
    and nc: "\<not> ((\<exists>r\<in>set rs. matches i r) \<and> (\<exists>q\<in>set rs. \<not> matches i q \<and> email (snd q) = email u))"
  shows "wf_rows (map (update_row u i) rs) sq"
proof -
  let ?f = "update_row u i"
  have fst_eq: "map fst (map ?f rs) = map fst rs"
    by (simp add: update_row_simps comp_def)
  have inj_old: "inj_on (\<lambda>r. email (snd r)) (set rs)"
    using wf by (simp add: wf_rows_def distinct_map)
  have "inj_on (\<lambda>r. email (snd (?f r))) (set rs)"
  proof (rule inj_onI)
    fix a b
    assume a: "a \<in> set rs" and b: "b \<in> set rs"
      and eq: "email (snd (?f a)) = email (snd (?f b))"
    show "a = b"
    proof (cases "matches i a")
      case True
      note ma = this
      show ?thesis
      proof (cases "matches i b")
        case True
        then show ?thesis using wf_rows_one_match[OF wf b a True ma] by simp
      next
        case False
        then have "email (snd b) = email u" using eq ma by (simp add: update_row_simps)
        then show ?thesis using nc a b ma False by blast
      qed
    next
      case False
      note na = this
      show ?thesis
      proof (cases "matches i b")
        case True
        then have "email (snd a) = email u" using eq na by (simp add: update_row_simps)
        then show ?thesis using nc a b na True by blast
      next
        case False
        then have "email (snd a) = email (snd b)" using eq na by (simp add: update_row_simps)
        then show ?thesis using inj_old a b by (auto dest: inj_onD)
      qed
    qed
  qed
  moreover have "distinct rs"
    using wf by (auto simp add: wf_rows_def dest: distinct_map[THEN iffD1])
  ultimately have "distinct (map (\<lambda>r. email (snd (?f r))) rs)"
    by (simp add: distinct_map)
  then have de: "distinct (map (\<lambda>r. email (snd r)) (map ?f rs))"
    by (simp add: comp_def)
  have la: "list_all (\<lambda>r. id' (snd r) = Some (fst r) \<and> 0 < fst r \<and> fst r \<le> sq \<and>
                     created_at (snd r) \<noteq> None) (map ?f rs)"
    using wf by (simp add: wf_rows_def list_all_iff update_row_simps)
  have df: "distinct (map fst (map ?f rs))"
    unfolding fst_eq using wf by (simp add: wf_rows_def)
  have "0 \<le> sq" using wf by (simp add: wf_rows_def)
  then show ?thesis
    unfolding wf_rows_def using df de la by blast
qed

lemma getUserById_ready:
  assumes "ready st"
  shows "getUserById i st =
           Inr (case i of None \<Rightarrow> None | Some n \<Rightarrow> find (\<lambda>r. id' r = Some n) (records st))"
  using assms
  by (auto simp add: ready_def getUserById_def users_table_def getDb_def sql_select_by_id_def
      has_column_users_schema records_def split: option.splits)

lemma updateUser_ready:
  assumes "ready st"
  shows "\<exists>t. users st = Some t \<and>
           updateUser i u st =
             (if (\<exists>r\<in>set (rows t). matches i r) \<and>
                 (\<exists>q\<in>set (rows t). \<not> matches i q \<and> email (snd q) = email u)
              then (Inl (UniqueFailed ''email''), st)
              else (getUserById i (st\<lparr>users := Some (t\<lparr>rows := map (update_row u i) (rows t)\<rparr>)\<rparr>),
                    st\<lparr>users := Some (t\<lparr>rows := map (update_row u i) (rows t)\<rparr>)\<rparr>))"
  using assms
  by (auto simp add: ready_def updateUser_def users_table_def getDb_def sql_update_ready
      split: option.splits)

lemma ready_updateUser:
  assumes "ready st"
  shows "ready (snd (updateUser i u st))"
proof -
  from updateUser_ready[OF assms, of i u] obtain t where
    t: "users st = Some t" and
    eq: "updateUser i u st =
             (if (\<exists>r\<in>set (rows t). matches i r) \<and>
                 (\<exists>q\<in>set (rows t). \<not> matches i q \<and> email (snd q) = email u)
              then (Inl (UniqueFailed ''email''), st)
              else (getUserById i (st\<lparr>users := Some (t\<lparr>rows := map (update_row u i) (rows t)\<rparr>)\<rparr>),
                    st\<lparr>users := Some (t\<lparr>rows := map (update_row u i) (rows t)\<rparr>)\<rparr>))"
    by blast
  have wf: "wf_rows (rows t) (seq t)" and sch: "schema t = users_schema" and d: "db st"
    using assms t by (auto simp add: ready_def)
  show ?thesis
  proof (cases "(\<exists>r\<in>set (rows t). matches i r) \<and>
                 (\<exists>q\<in>set (rows t). \<not> matches i q \<and> email (snd q) = email u)")
    case True
    then show ?thesis using eq assms by simp
  next
    case False
    from wf_rows_update[OF wf False] show ?thesis
      using eq False sch d by (simp add: ready_def)
  qed
qed

lemma router_delete_eq:
  "router_delete p st = (\<lparr>status = 500, body = ErrorJson ''Failed to delete user''\<rparr>, st)"
  by (simp add: router_delete_def deleteUser_def)

lemma ready_reachable:
  assumes "ready st0" "reachable st0 st"
  shows "ready st"
  using assms(2)
proof (induction rule: reachable.induct)
  case start
  then show ?case by (rule assms(1))
next
  case (create st now u)
  then show ?case by (simp add: ready_createUser)
next
  case (update st i u)
  then show ?case by (simp add: ready_updateUser)
next
  case (delete st p)
  then show ?case by (simp add: router_delete_eq)
qed

lemma ready_distinct_emails: "ready st \<Longrightarrow> distinct (emails st)"
  by (auto simp add: ready_def emails_def wf_rows_def split: option.splits)

lemma no_table_reachable:
  assumes "users st0 = None" "reachable st0 st"
  shows "st = st0"
  using assms(2)
proof (induction rule: reachable.induct)
  case start
  then show ?case by simp
next
  case (create st now u)
  then show ?case using assms(1)
    by (simp add: createUser_def users_table_def split: sum.splits)
next
  case (update st i u)
  then show ?case using assms(1)
    by (simp add: updateUser_def users_table_def split: sum.splits)
next
  case (delete st p)
  then show ?case by (simp add: router_delete_eq)
qed


section \<open>The example stores\<close>

lemma ready_initialized: "ready initialized"
  by (simp add: ready_def initialized_def wf_rows_def)

lemma emails_initialized: "emails initialized = []"
  by (simp add: emails_def initialized_def)

lemma store1_eq:
  "store1 = \<lparr>db = True, users = Some \<lparr>schema = users_schema,
      rows = [(1, \<lparr>name = ''Ann'', email = ''ann@x.com'', id' = Some 1, created_at = Some 5\<rparr>)],
      seq = 1\<rparr>\<rparr>"
  using createUser_ready[OF ready_initialized, of 5 ann]
  by (simp add: store1_def emails_initialized ann_def) (simp add: initialized_def)

lemma ready_store1: "ready store1"
  unfolding store1_def by (rule ready_createUser[OF ready_initialized])

lemma store2_eq:
  "store2 = \<lparr>db = True, users = Some \<lparr>schema = users_schema,
      rows = [(1, \<lparr>name = ''Ann'', email = ''ann@x.com'', id' = Some 1, created_at = Some 5\<rparr>),
              (2, \<lparr>name = ''Bob'', email = ''bob@x.com'', id' = Some 2, created_at = Some 7\<rparr>)],
      seq = 2\<rparr>\<rparr>"
  using createUser_ready[OF ready_store1, of 7 bob]
  by (simp add: store2_def store1_eq emails_def bob_def)

lemma ready_store2: "ready store2"
  unfolding store2_def by (rule ready_createUser[OF ready_store1])


section \<open>Lookups, updates and listing on a ready store\<close>

lemma find_append_skip: "\<forall>x\<in>set xs. \<not> P x \<Longrightarrow> find P (xs @ ys) = find P ys"
  by (induction xs) auto

lemma unique_message: "str_includes (message (UniqueFailed c)) ''UNIQUE constraint failed''"
  by simp

lemma count_distinct_map:
  "distinct (map f xs) \<Longrightarrow> y \<in> set (map f xs) \<Longrightarrow> length (filter (\<lambda>x. f x = y) xs) = 1"
proof (induction xs)
  case Nil
  then show ?case by simp
next
  case (Cons x xs)
  show ?case
  proof (cases "f x = y")
    case True
    then have "\<forall>z\<in>set xs. f z \<noteq> y" using Cons.prems(1) by (auto simp add: image_iff)
    then have "filter (\<lambda>x. f x = y) xs = []" by (simp add: filter_empty_conv)
    then show ?thesis using True by simp
  next
    case False
    then show ?thesis using Cons by auto
  qed
qed

lemma find_unique:
  assumes "x \<in> set xs" "P x" "\<forall>y\<in>set xs. P y \<longrightarrow> y = x"
  shows "find P xs = Some x"
  using assms
proof (induction xs)
  case Nil
  then show ?case by simp
next
  case (Cons a xs)
  show ?case
  proof (cases "P a")
    case True
    then have "a = x" using Cons.prems(3) by simp
    then show ?thesis using True by simp
  next
    case False
    then have "x \<in> set xs" using Cons.prems(1,2) by auto
    moreover have "\<forall>y\<in>set xs. P y \<longrightarrow> y = x" using Cons.prems(3) by simp
    ultimately have "find P xs = Some x" using Cons.IH Cons.prems(2) by blast
    then show ?thesis using False by simp
  qed
qed

lemma records_update:
  "records (st\<lparr>users := Some (t\<lparr>rows := map (update_row u i) (rows t)\<rparr>)\<rparr>) =
     map (\<lambda>r. snd (update_row u i r)) (rows t)"
  by (simp add: records_def comp_def)

lemma update_row_unmatched: "\<not> matches i r \<Longrightarrow> update_row u i r = r"
  by (simp add: update_row_def)

lemma update_no_match:
  assumes "users st = Some t" "\<forall>r\<in>set (rows t). \<not> matches i r"
  shows "st\<lparr>users := Some (t\<lparr>rows := map (update_row u i) (rows t)\<rparr>)\<rparr> = st"
proof -
  have "map (update_row u i) (rows t) = rows t"
    using assms(2) by (simp add: update_row_unmatched map_idI)
  then show ?thesis using assms(1) by simp
qed

lemma getUserById_updated:
  assumes "ready st" "users st = Some t" "r \<in> set (rows t)" "matches i r"
    and nc: "\<not> ((\<exists>r\<in>set (rows t). matches i r) \<and>
                 (\<exists>q\<in>set (rows t). \<not> matches i q \<and> email (snd q) = email u))"
  shows "getUserById i (st\<lparr>users := Some (t\<lparr>rows := map (update_row u i) (rows t)\<rparr>)\<rparr>) =
           Inr (Some ((snd r)\<lparr>name := name u, email := email u\<rparr>))"
proof -
  let ?st1 = "st\<lparr>users := Some (t\<lparr>rows := map (update_row u i) (rows t)\<rparr>)\<rparr>"
  have wf: "wf_rows (rows t) (seq t)" and sch: "schema t = users_schema" and d: "db st"
    using assms(1,2) by (auto simp add: ready_def)
  have r1: "ready ?st1"
    using wf_rows_update[OF wf nc] sch d by (simp add: ready_def)
  obtain n where n: "i = Some n" "id' (snd r) = Some n"
    using assms(4) by (auto simp add: matches_def)
  let ?x = "snd (update_row u i r)"
  have x_in: "?x \<in> set (records ?st1)"
    using assms(3) by (simp add: records_update)
  have x_id: "id' ?x = Some n"
    using n by (simp add: update_row_simps)
  have uniq: "\<forall>y\<in>set (records ?st1). id' y = Some n \<longrightarrow> y = ?x"
  proof (intro ballI impI)
    fix y assume "y \<in> set (records ?st1)" and yid: "id' y = Some n"
    then obtain q where q: "q \<in> set (rows t)" "y = snd (update_row u i q)"
      by (auto simp add: records_update)
    have "matches i q" using yid q n by (simp add: matches_def update_row_simps)
    then have "q = r" using wf_rows_one_match[OF wf assms(3) q(1) assms(4)] by simp
    then show "y = ?x" using q by simp
  qed
  have "find (\<lambda>r. id' r = Some n) (records ?st1) = Some ?x"
    using x_in x_id uniq by (rule find_unique)
  then have "getUserById i ?st1 = Inr (Some ?x)"
    using r1 n by (simp add: getUserById_ready)
  then show ?thesis using assms(4) by (simp add: update_row_def)
qed

lemma matches_records:
  assumes "users st = Some t" "ready st"
  shows "(\<exists>r\<in>set (rows t). matches i r) \<longleftrightarrow> (\<exists>r\<in>set (records st). id' r = i)"
proof -
  have "wf_rows (rows t) (seq t)"
    using assms by (simp add: ready_def)
  then have ids: "\<forall>q\<in>set (rows t). id' (snd q) \<noteq> None"
    by (simp add: wf_rows_def list_all_iff)
  have "(\<exists>r\<in>set (rows t). matches i r) \<longleftrightarrow> (\<exists>q\<in>set (rows t). id' (snd q) = i)"
    using ids unfolding matches_def by blast
  also have "\<dots> \<longleftrightarrow> (\<exists>r\<in>set (records st). id' r = i)"
    using assms(1) by (simp add: records_def)
  finally show ?thesis .
qed

lemma own_email_no_conflict:
  assumes wf: "wf_rows rs sq" and r: "r \<in> set rs" "matches i r" "email (snd r) = email u"
  shows "\<not> ((\<exists>r\<in>set rs. matches i r) \<and> (\<exists>q\<in>set rs. \<not> matches i q \<and> email (snd q) = email u))"
proof -
  have inj: "inj_on (\<lambda>r. email (snd r)) (set rs)"
    using wf by (simp add: wf_rows_def distinct_map)
  have "q = r" if "q \<in> set rs" "email (snd q) = email u" for q
  proof (rule inj_onD[OF inj])
    show "email (snd q) = email (snd r)" using that(2) r(3) by simp
  qed (use that(1) r(1) in simp_all)
  then show ?thesis using r(2) by blast
qed

lemma mset_insert_desc: "mset (insert_desc x ys) = add_mset x (mset ys)"
  by (induction ys) simp_all

lemma set_insert_desc: "set (insert_desc x ys) = insert x (set ys)"
  by (induction ys) auto

lemma sorted_insert_desc:
  "sorted_wrt (\<lambda>a b. sort_key b \<le> sort_key a) ys \<Longrightarrow>
   sorted_wrt (\<lambda>a b. sort_key b \<le> sort_key a) (insert_desc x ys)"
proof (induction ys)
  case Nil
  then show ?case by simp
next
  case (Cons y ys)
  show ?case
  proof (cases "sort_key y \<le> sort_key x")
    case True
    then have "\<forall>z\<in>set ys. sort_key z \<le> sort_key x" using Cons.prems by fastforce
    then show ?thesis using True Cons.prems by simp
  next
    case False
    then show ?thesis using Cons by (simp add: set_insert_desc)
  qed
qed

lemma mset_order_by: "mset (foldr insert_desc xs []) = mset xs"
  by (induction xs) (simp_all add: mset_insert_desc)

lemma sorted_order_by: "sorted_wrt (\<lambda>a b. sort_key b \<le> sort_key a) (foldr insert_desc xs [])"
  by (induction xs) (simp_all add: sorted_insert_desc)

lemma getAllUsers_ready: "ready st \<Longrightarrow> getAllUsers st = Inr (foldr insert_desc (records st) [])"
  by (auto simp add: ready_def getAllUsers_def users_table_def getDb_def sql_select_all_def
      has_column_users_schema records_def split: option.splits)

lemma ready_created_at:
  assumes "ready st" "r \<in> set (records st)"
  shows "created_at r = Some (sort_key r - 1)"
proof -
  obtain t where t: "users st = Some t" "wf_rows (rows t) (seq t)"
    using assms(1) by (auto simp add: ready_def split: option.splits)
  have "created_at r \<noteq> None"
    using t assms(2) by (auto simp add: records_def wf_rows_def list_all_iff)
  then show ?thesis by (auto simp add: sort_key_def)
qed

lemma store3_eq:
  "store3 = \<lparr>db = True, users = Some \<lparr>schema = users_schema,
      rows = [(1, \<lparr>name = ''Ann'', email = ''ann@x.com'', id' = Some 1, created_at = Some 5\<rparr>),
              (2, \<lparr>name = ''Bob'', email = ''bob@x.com'', id' = Some 2, created_at = Some 7\<rparr>),
              (3, \<lparr>name = ''Carol'', email = ''carol@x.com'', id' = Some 3, created_at = Some 9\<rparr>)],
      seq = 3\<rparr>\<rparr>"
  using createUser_ready[OF ready_store2, of 9 carol]
  by (simp add: store3_def store2_eq emails_def carol_def)

lemma ready_store3: "ready store3"
  unfolding store3_def by (rule ready_createUser[OF ready_store2])

lemma records_store2:
  "records store2 =
     [\<lparr>name = ''Ann'', email = ''ann@x.com'', id' = Some 1, created_at = Some 5\<rparr>,
      \<lparr>name = ''Bob'', email = ''bob@x.com'', id' = Some 2, created_at = Some 7\<rparr>]"
  by (simp add: store2_eq records_def)

lemma records_store3:
  "records store3 =
     [\<lparr>name = ''Ann'', email = ''ann@x.com'', id' = Some 1, created_at = Some 5\<rparr>,
      \<lparr>name = ''Bob'', email = ''bob@x.com'', id' = Some 2, created_at = Some 7\<rparr>,
      \<lparr>name = ''Carol'', email = ''carol@x.com'', id' = Some 3, created_at = Some 9\<rparr>]"
  by (simp add: store3_eq records_def)


lemma conflict_records:
  assumes "users st = Some t" "ready st"
  shows "((\<exists>r\<in>set (rows t). matches i r) \<and>
          (\<exists>q\<in>set (rows t). \<not> matches i q \<and> email (snd q) = email u)) \<longleftrightarrow>
         ((\<exists>r\<in>set (records st). id' r = i) \<and>
          (\<exists>q\<in>set (records st). id' q \<noteq> i \<and> email q = email u))"
proof (cases "\<exists>r\<in>set (rows t). matches i r")
  case True
  then have "i \<noteq> None" by (auto simp add: matches_def)
  then have m: "\<And>q. matches i q \<longleftrightarrow> id' (snd q) = i" by (simp add: matches_def)
  have recs: "records st = map snd (rows t)"
    using assms(1) by (simp add: records_def)
  have "(\<exists>q\<in>set (rows t). \<not> matches i q \<and> email (snd q) = email u) \<longleftrightarrow>
        (\<exists>q\<in>set (records st). id' q \<noteq> i \<and> email q = email u)"
    unfolding m recs by simp
  moreover have "\<exists>r\<in>set (records st). id' r = i"
    using True matches_records[OF assms, of i] by blast
  ultimately show ?thesis using True by blast
next
  case False
  then have "\<not> (\<exists>r\<in>set (records st). id' r = i)"
    using matches_records[OF assms, of i] by blast
  then show ?thesis using False by blast
qed

lemma records_updated_map:
  assumes "i \<noteq> None"
  shows "map (\<lambda>r. snd (update_row u i r)) rs =
         map (\<lambda>x. if id' x = i then x\<lparr>name := name u, email := email u\<rparr> else x) (map snd rs)"
  using assms by (simp add: update_row_def matches_def comp_def)


section \<open>Store initialisation (C8)\<close>

text \<open>
  C8. The claim: initialisation creates the \<open>users\<close> table if absent, with \<open>id\<close> a
  store-assigned unique integer key, and is idempotent. The statement of \<open>connectDb\<close>
  spells \<open>PRIMARY\<close> as \<open>PROMARU\<close>, so the engine reads \<open>INTEGER PROMARU KEY\<close> as a
  type name and rejects the word \<open>AUTOINCREMENT\<close> that follows: on every store, also one
  that already has the table, \<open>connectDb\<close> throws and creates nothing. (With the
  documented statement the table is created and left alone when it exists:
  \<open>create_table_readme\<close>.)
\<close>

theorem connectDb_syntax_error:
  "connectDb st = (Inl (SqlSyntaxError ''AUTOINCREMENT''), st\<lparr>db := True\<rparr>)"
  by (simp add: connectDb_def create_table_if_not_exists_def parse_users_columns)


section \<open>Delete (C2)\<close>

text \<open>
  C2. The claim: delete on an existing id removes the record and answers 204, delete on a
  missing id answers 404. The service has no \<open>deleteUser\<close> (it is commented out), so the
  handler answers 500 for every id and every store, and the store, and with it every
  later lookup, is unchanged.
\<close>

theorem router_delete_fails:
  "router_delete p st = (\<lparr>status = 500, body = ErrorJson ''Failed to delete user''\<rparr>, st) \<and>
   getUserById i (snd (router_delete p st)) = getUserById i st"
  by (simp add: router_delete_def deleteUser_def)


section \<open>Create, then get (C1)\<close>

text \<open>
  C1 as stated fails: the record that \<open>createUser\<close> returns has no \<open>created_at\<close>, so
  it is not the record a later \<open>getUserById\<close> returns. At the empty initialised store,
  creating Ann at clock reading 5 returns a record without timestamp, and the lookup of
  id 1 returns the record with timestamp 5, which is not the returned one:
\<close>

theorem createUser_record_differs:
  "ready initialized \<and> email ann \<notin> set (emails initialized) \<and>
   fst (createUser 5 ann initialized) =
     Inr \<lparr>name = ''Ann'', email = ''ann@x.com'', id' = Some 1, created_at = None\<rparr> \<and>
   getUserById (Some 1) (snd (createUser 5 ann initialized)) =
     Inr (Some \<lparr>name = ''Ann'', email = ''ann@x.com'', id' = Some 1, created_at = Some 5\<rparr>) \<and>
   getUserById (Some 1) (snd (createUser 5 ann initialized)) \<noteq>
     Inr (Some \<lparr>name = ''Ann'', email = ''ann@x.com'', id' = Some 1, created_at = None\<rparr>)"
proof -
  have "fst (createUser 5 ann initialized) =
     Inr \<lparr>name = ''Ann'', email = ''ann@x.com'', id' = Some 1, created_at = None\<rparr>"
    using createUser_ready[OF ready_initialized, of 5 ann]
    by (simp add: emails_initialized ann_def) (simp add: initialized_def)
  moreover have "getUserById (Some 1) (snd (createUser 5 ann initialized)) =
     Inr (Some \<lparr>name = ''Ann'', email = ''ann@x.com'', id' = Some 1, created_at = Some 5\<rparr>)"
    using store1_eq ready_store1 by (simp add: getUserById_ready store1_def records_def)
  ultimately show ?thesis by (simp add: ready_initialized emails_initialized)
qed

text \<open>
  C1, amended. For every input whose email is not in a ready store, \<open>createUser\<close>
  succeeds and returns the input's name and email with a positive id and no
  \<open>created_at\<close>; \<open>getUserById\<close> with that id then returns the record with the same id,
  name and email, and with the timestamp the store assigned.
\<close>

theorem createUser_then_getUserById:
  assumes "ready st" "email u \<notin> set (emails st)"
  shows "\<exists>i st1. createUser now u st =
                   (Inr \<lparr>name = name u, email = email u, id' = Some i, created_at = None\<rparr>, st1) \<and>
                 0 < i \<and>
                 getUserById (Some i) st1 =
                   Inr (Some \<lparr>name = name u, email = email u, id' = Some i, created_at = Some now\<rparr>)"
proof -
  from createUser_ready[OF assms(1), of now u] assms(2) obtain t where
    t: "users st = Some t" and
    eq: "createUser now u st =
           (Inr \<lparr>name = name u, email = email u, id' = Some (seq t + 1), created_at = None\<rparr>,
            st\<lparr>users := Some (t\<lparr>rows := rows t @ [(seq t + 1, \<lparr>name = name u, email = email u,
                                                     id' = Some (seq t + 1), created_at = Some now\<rparr>)],
                        seq := seq t + 1\<rparr>)\<rparr>)"
    by auto
  let ?st1 = "snd (createUser now u st)"
  have wf: "wf_rows (rows t) (seq t)"
    using assms(1) t by (simp add: ready_def)
  have pos: "0 < seq t + 1"
    using wf by (simp add: wf_rows_def)
  have old: "\<forall>r\<in>set (map snd (rows t)). \<not> id' r = Some (seq t + 1)"
    using wf_rows_fresh(2)[OF wf] by auto
  have "ready ?st1"
    by (rule ready_createUser[OF assms(1)])
  then have g: "getUserById (Some (seq t + 1)) ?st1 =
      Inr (Some \<lparr>name = name u, email = email u, id' = Some (seq t + 1), created_at = Some now\<rparr>)"
    using old by (simp add: getUserById_ready eq records_def find_append_skip)
  have c: "createUser now u st =
      (Inr \<lparr>name = name u, email = email u, id' = Some (seq t + 1), created_at = None\<rparr>, ?st1)"
    by (simp add: eq)
  from c pos g show ?thesis by blast
qed

theorem createUser_then_getUserById_witness:
  "ready initialized \<and> email ann \<notin> set (emails initialized) \<and>
   (\<exists>i st1. createUser 5 ann initialized =
               (Inr \<lparr>name = name ann, email = email ann, id' = Some i, created_at = None\<rparr>, st1) \<and>
             0 < i \<and>
             getUserById (Some i) st1 =
               Inr (Some \<lparr>name = name ann, email = email ann, id' = Some i, created_at = Some 5\<rparr>))"
proof -
  have h1: "ready initialized" by (rule ready_initialized)
  have h2: "email ann \<notin> set (emails initialized)" by (simp add: emails_initialized)
  show ?thesis by (intro conjI h1 h2 createUser_then_getUserById[OF h1 h2])
qed


section \<open>Unique emails (C3)\<close>

text \<open>
  C3. In every store reachable by create, update and delete operations from a ready store
  (in particular the initialised empty one) or from a store without the table, no two
  records have the same email. (The example after the theorem: Ann and Bob are created,
  a second Ann is refused, and the two emails are distinct.)
\<close>

theorem emails_unique_reachable:
  assumes "ready st0 \<or> users st0 = None" "reachable st0 st"
  shows "distinct (emails st)"
proof -
  from assms(1) show ?thesis
  proof
    assume "ready st0"
    then have "ready st" using assms(2) by (rule ready_reachable)
    then show ?thesis by (rule ready_distinct_emails)
  next
    assume n: "users st0 = None"
    then have "st = st0" using assms(2) by (rule no_table_reachable)
    then show ?thesis using n by (simp add: emails_def)
  qed
qed

theorem emails_unique_reachable_witness:
  "(ready initialized \<or> users initialized = None) \<and>
   reachable initialized (snd (createUser 9 ann (snd (createUser 7 bob (snd (createUser 5 ann initialized)))))) \<and>
   fst (createUser 9 ann (snd (createUser 7 bob (snd (createUser 5 ann initialized))))) =
     Inl (UniqueFailed ''email'') \<and>
   emails (snd (createUser 9 ann (snd (createUser 7 bob (snd (createUser 5 ann initialized)))))) =
     [''ann@x.com'', ''bob@x.com''] \<and>
   distinct (emails (snd (createUser 9 ann (snd (createUser 7 bob (snd (createUser 5 ann initialized)))))))"
proof -
  let ?st = "snd (createUser 9 ann (snd (createUser 7 bob (snd (createUser 5 ann initialized)))))"
  have h1: "ready initialized \<or> users initialized = None" by (simp add: ready_initialized)
  have h2: "reachable initialized ?st"
    by (intro reachable.create reachable.start)
  have s2: "snd (createUser 7 bob (snd (createUser 5 ann initialized))) = store2"
    by (simp add: store2_def store1_def)
  have em: "emails store2 = [''ann@x.com'', ''bob@x.com'']"
    by (simp add: store2_eq emails_def)
  have c: "createUser 9 ann store2 = (Inl (UniqueFailed ''email''), store2)"
    using createUser_ready[OF ready_store2, of 9 ann] by (simp add: em ann_def)
  have r1: "fst (createUser 9 ann (snd (createUser 7 bob (snd (createUser 5 ann initialized))))) =
     Inl (UniqueFailed ''email'')"
    unfolding s2 by (simp add: c)
  have r2: "emails ?st = [''ann@x.com'', ''bob@x.com'']"
    unfolding s2 by (simp add: c em)
  show ?thesis by (intro conjI h1 h2 r1 r2 emails_unique_reachable[OF h1 h2])
qed


section \<open>Duplicate email on create (C4)\<close>

text \<open>
  C4. Creating a record whose email is that of an existing record of a ready store fails
  with the uniqueness violation, which the create handler answers with 409
  \<open>Email already exists\<close>; the store is unchanged and still holds exactly one record
  with that email.
\<close>

theorem duplicate_email_rejected:
  assumes "ready st" "e \<in> set (emails st)" "n \<noteq> []" "e \<noteq> []"
  shows "createUser now \<lparr>name = n, email = e\<rparr> st = (Inl (UniqueFailed ''email''), st) \<and>
         router_post now \<lparr>body_name = Some n, body_email = Some e\<rparr> st =
           (\<lparr>status = 409, body = ErrorJson ''Email already exists''\<rparr>, st) \<and>
         length (filter (\<lambda>r. email r = e) (records st)) = 1"
proof -
  have c: "createUser now \<lparr>name = n, email = e\<rparr> st = (Inl (UniqueFailed ''email''), st)"
    using createUser_ready[OF assms(1), of now "\<lparr>name = n, email = e\<rparr>"] assms(2) by auto
  have p: "router_post now \<lparr>body_name = Some n, body_email = Some e\<rparr> st =
           (\<lparr>status = 409, body = ErrorJson ''Email already exists''\<rparr>, st)"
    using assms(3,4) unique_message[of "''email''"]
    by (simp add: router_post_def falsy_def text_of_def c del: message.simps str_includes.simps)
  obtain t where t: "users st = Some t" "wf_rows (rows t) (seq t)"
    using assms(1) by (auto simp add: ready_def split: option.splits)
  have "distinct (map email (map snd (rows t)))" "e \<in> set (map email (map snd (rows t)))"
    using t assms(2) by (simp_all add: wf_rows_def emails_def comp_def)
  then have "length (filter (\<lambda>r. email r = e) (map snd (rows t))) = 1"
    by (rule count_distinct_map)
  then have l: "length (filter (\<lambda>r. email r = e) (records st)) = 1"
    using t by (simp add: records_def)
  from c p l show ?thesis by blast
qed

theorem duplicate_email_rejected_witness:
  "ready store1 \<and> ''ann@x.com'' \<in> set (emails store1) \<and>
   createUser 9 \<lparr>name = ''Ann2'', email = ''ann@x.com''\<rparr> store1 = (Inl (UniqueFailed ''email''), store1) \<and>
   router_post 9 \<lparr>body_name = Some ''Ann2'', body_email = Some ''ann@x.com''\<rparr> store1 =
     (\<lparr>status = 409, body = ErrorJson ''Email already exists''\<rparr>, store1) \<and>
   length (filter (\<lambda>r. email r = ''ann@x.com'') (records store1)) = 1"
proof -
  have h1: "ready store1" by (rule ready_store1)
  have h2: "''ann@x.com'' \<in> set (emails store1)" by (simp add: store1_eq emails_def)
  have h3: "''Ann2'' \<noteq> []" by simp
  have h4: "''ann@x.com'' \<noteq> []" by simp
  show ?thesis by (intro conjI h1 h2 duplicate_email_rejected[OF h1 h2 h3 h4, THEN conjunct1]
      duplicate_email_rejected[OF h1 h2 h3 h4, THEN conjunct2, THEN conjunct1]
      duplicate_email_rejected[OF h1 h2 h3 h4, THEN conjunct2, THEN conjunct2])
qed


section \<open>Update changes name and email only (C5)\<close>

text \<open>
  C5. On a ready store, \<open>updateUser\<close> leaves the id and the \<open>created_at\<close> of every record
  as they are and leaves every record with another id unchanged. For an existing id, when
  no record with another id has the new email, it returns the record with the new name
  and email, and the store then holds exactly the old records with that one carrying the
  new name and email; when a record with another id has the new email, it fails with the
  uniqueness violation and the store is unchanged. For an id that no record has it
  returns absent and the store is unchanged.
\<close>

theorem updateUser_frame:
  assumes "ready st"
  shows "map id' (records (snd (updateUser i u st))) = map id' (records st) \<and>
         map created_at (records (snd (updateUser i u st))) = map created_at (records st) \<and>
         (\<forall>k<length (records st). id' (records st ! k) \<noteq> i \<longrightarrow>
              records (snd (updateUser i u st)) ! k = records st ! k) \<and>
         (\<forall>r\<in>set (records st).
              id' r = i \<and> (\<forall>q\<in>set (records st). id' q \<noteq> i \<longrightarrow> email q \<noteq> email u) \<longrightarrow>
              fst (updateUser i u st) = Inr (Some (r\<lparr>name := name u, email := email u\<rparr>)) \<and>
              records (snd (updateUser i u st)) =
                map (\<lambda>x. if id' x = i then x\<lparr>name := name u, email := email u\<rparr> else x)
                    (records st)) \<and>
         (\<forall>r\<in>set (records st).
              id' r = i \<and> (\<exists>q\<in>set (records st). id' q \<noteq> i \<and> email q = email u) \<longrightarrow>
              updateUser i u st = (Inl (UniqueFailed ''email''), st)) \<and>
         ((\<forall>r\<in>set (records st). id' r \<noteq> i) \<longrightarrow> updateUser i u st = (Inr None, st))"
proof -
  from updateUser_ready[OF assms, of i u] obtain t where
    t: "users st = Some t" and
    eq: "updateUser i u st =
             (if (\<exists>r\<in>set (rows t). matches i r) \<and>
                 (\<exists>q\<in>set (rows t). \<not> matches i q \<and> email (snd q) = email u)
              then (Inl (UniqueFailed ''email''), st)
              else (getUserById i (st\<lparr>users := Some (t\<lparr>rows := map (update_row u i) (rows t)\<rparr>)\<rparr>),
                    st\<lparr>users := Some (t\<lparr>rows := map (update_row u i) (rows t)\<rparr>)\<rparr>))"
    by blast
  let ?st1 = "st\<lparr>users := Some (t\<lparr>rows := map (update_row u i) (rows t)\<rparr>)\<rparr>"
  have recs: "records st = map snd (rows t)"
    using t by (simp add: records_def)
  let ?C = "(\<exists>r\<in>set (rows t). matches i r) \<and>
           (\<exists>q\<in>set (rows t). \<not> matches i q \<and> email (snd q) = email u)"
  let ?R = "(\<exists>r\<in>set (records st). id' r = i) \<and>
           (\<exists>q\<in>set (records st). id' q \<noteq> i \<and> email q = email u)"
  let ?up = "updateUser i u st"
  have CR: "?C \<longleftrightarrow> ?R" by (rule conflict_records[OF t assms])
  show ?thesis
  proof (cases ?C)
    case True
    have e: "?up = (Inl (UniqueFailed ''email''), st)"
      unfolding eq using True by (rule if_P)
    have R: ?R using True CR by blast
    have A: "map id' (records (snd ?up)) = map id' (records st)"
      by (simp add: e)
    have B: "map created_at (records (snd ?up)) = map created_at (records st)"
      by (simp add: e)
    have C: "\<forall>k<length (records st). id' (records st ! k) \<noteq> i \<longrightarrow>
               records (snd ?up) ! k = records st ! k"
      by (simp add: e)
    have D1: "\<forall>r\<in>set (records st).
              id' r = i \<and> (\<forall>q\<in>set (records st). id' q \<noteq> i \<longrightarrow> email q \<noteq> email u) \<longrightarrow>
              fst ?up = Inr (Some (r\<lparr>name := name u, email := email u\<rparr>)) \<and>
              records (snd ?up) =
                map (\<lambda>x. if id' x = i then x\<lparr>name := name u, email := email u\<rparr> else x)
                    (records st)"
      using R by blast
    have D2: "\<forall>r\<in>set (records st).
              id' r = i \<and> (\<exists>q\<in>set (records st). id' q \<noteq> i \<and> email q = email u) \<longrightarrow>
              ?up = (Inl (UniqueFailed ''email''), st)"
      using e by blast
    have F: "(\<forall>r\<in>set (records st). id' r \<noteq> i) \<longrightarrow> ?up = (Inr None, st)"
      using R by blast
    from A B C D1 D2 F show ?thesis by (intro conjI)
  next
    case False
    have nR: "\<not> ?R" using False CR by blast
    have e: "?up = (getUserById i ?st1, ?st1)"
      unfolding eq using False by (rule if_not_P)
    have s1: "snd ?up = ?st1" and f1: "fst ?up = getUserById i ?st1"
      by (simp_all add: e)
    have A: "map id' (records (snd ?up)) = map id' (records st)"
      unfolding s1 by (simp add: records_update recs update_row_simps comp_def)
    have B: "map created_at (records (snd ?up)) = map created_at (records st)"
      unfolding s1 by (simp add: records_update recs update_row_simps comp_def)
    have C: "\<forall>k<length (records st). id' (records st ! k) \<noteq> i \<longrightarrow>
               records (snd ?up) ! k = records st ! k"
      unfolding s1 by (simp add: records_update recs update_row_unmatched matches_def)
    have d: "fst ?up = Inr (Some (r\<lparr>name := name u, email := email u\<rparr>)) \<and>
             records (snd ?up) =
                map (\<lambda>x. if id' x = i then x\<lparr>name := name u, email := email u\<rparr> else x)
                    (records st)"
      if "r \<in> set (records st)" and rid: "id' r = i" for r
    proof -
      from that obtain q where q: "q \<in> set (rows t)" "r = snd q"
        by (auto simp add: recs)
      have "id' (snd q) \<noteq> None"
        using assms t q(1) by (auto simp add: ready_def wf_rows_def list_all_iff)
      then have inn: "i \<noteq> None" using rid q(2) by simp
      then have m: "matches i q" using rid q(2) by (simp add: matches_def)
      have "getUserById i ?st1 = Inr (Some ((snd q)\<lparr>name := name u, email := email u\<rparr>))"
        by (rule getUserById_updated[OF assms t q(1) m False])
      then have g: "getUserById i ?st1 = Inr (Some (r\<lparr>name := name u, email := email u\<rparr>))"
        unfolding q(2) .
      have "records ?st1 = map (\<lambda>r. snd (update_row u i r)) (rows t)"
        by (rule records_update)
      also have "\<dots> = map (\<lambda>x. if id' x = i then x\<lparr>name := name u, email := email u\<rparr> else x)
                    (map snd (rows t))"
        by (rule records_updated_map[OF inn])
      finally have rr: "records ?st1 =
          map (\<lambda>x. if id' x = i then x\<lparr>name := name u, email := email u\<rparr> else x) (records st)"
        unfolding recs .
      from g rr show ?thesis unfolding s1 f1 by (intro conjI)
    qed
    have D1: "\<forall>r\<in>set (records st).
              id' r = i \<and> (\<forall>q\<in>set (records st). id' q \<noteq> i \<longrightarrow> email q \<noteq> email u) \<longrightarrow>
              fst ?up = Inr (Some (r\<lparr>name := name u, email := email u\<rparr>)) \<and>
              records (snd ?up) =
                map (\<lambda>x. if id' x = i then x\<lparr>name := name u, email := email u\<rparr> else x)
                    (records st)"
      using d by blast
    have D2: "\<forall>r\<in>set (records st).
              id' r = i \<and> (\<exists>q\<in>set (records st). id' q \<noteq> i \<and> email q = email u) \<longrightarrow>
              ?up = (Inl (UniqueFailed ''email''), st)"
      using nR by blast
    have F: "(\<forall>r\<in>set (records st). id' r \<noteq> i) \<longrightarrow> ?up = (Inr None, st)"
    proof
      assume none: "\<forall>r\<in>set (records st). id' r \<noteq> i"
      then have nm: "\<forall>r\<in>set (rows t). \<not> matches i r"
        using matches_records[OF t assms, of i] by blast
      have s: "?st1 = st" using t nm by (rule update_no_match)
      have "getUserById i st = Inr None"
      proof (cases i)
        case None
        then show ?thesis using assms by (simp add: getUserById_ready)
      next
        case (Some n)
        then have "find (\<lambda>r. id' r = Some n) (records st) = None"
          using none by (simp add: find_None_iff)
        then show ?thesis using assms Some by (simp add: getUserById_ready)
      qed
      then show "?up = (Inr None, st)"
        unfolding e s by simp
    qed
    from A B C D1 D2 F show ?thesis by (intro conjI)
  qed
qed

theorem updateUser_frame_witness:
  "ready store2 \<and>
   fst (updateUser (Some 1) carol store2) =
     Inr (Some \<lparr>name = ''Carol'', email = ''carol@x.com'', id' = Some 1, created_at = Some 5\<rparr>) \<and>
   records (snd (updateUser (Some 1) carol store2)) =
     [\<lparr>name = ''Carol'', email = ''carol@x.com'', id' = Some 1, created_at = Some 5\<rparr>,
      \<lparr>name = ''Bob'', email = ''bob@x.com'', id' = Some 2, created_at = Some 7\<rparr>] \<and>
   map id' (records (snd (updateUser (Some 1) carol store2))) = [Some 1, Some 2] \<and>
   map created_at (records (snd (updateUser (Some 1) carol store2))) = [Some 5, Some 7] \<and>
   updateUser (Some 1) bob store2 = (Inl (UniqueFailed ''email''), store2) \<and>
   updateUser (Some 3) carol store2 = (Inr None, store2)"
proof -
  have h: "ready store2" by (rule ready_store2)
  note T1 = updateUser_frame[OF h, of "Some 1" carol]
  note T2 = updateUser_frame[OF h, of "Some 1" bob]
  note T3 = updateUser_frame[OF h, of "Some 3" carol]
  have a: "map id' (records (snd (updateUser (Some 1) carol store2))) = [Some 1, Some 2]"
    using T1[THEN conjunct1] by (simp add: records_store2)
  have b: "map created_at (records (snd (updateUser (Some 1) carol store2))) = [Some 5, Some 7]"
    using T1[THEN conjunct2, THEN conjunct1] by (simp add: records_store2)
  have c: "fst (updateUser (Some 1) carol store2) =
     Inr (Some \<lparr>name = ''Carol'', email = ''carol@x.com'', id' = Some 1, created_at = Some 5\<rparr>) \<and>
   records (snd (updateUser (Some 1) carol store2)) =
     [\<lparr>name = ''Carol'', email = ''carol@x.com'', id' = Some 1, created_at = Some 5\<rparr>,
      \<lparr>name = ''Bob'', email = ''bob@x.com'', id' = Some 2, created_at = Some 7\<rparr>]"
    using T1[THEN conjunct2, THEN conjunct2, THEN conjunct2, THEN conjunct1]
    by (simp add: records_store2 carol_def)
  have d: "updateUser (Some 1) bob store2 = (Inl (UniqueFailed ''email''), store2)"
    using T2[THEN conjunct2, THEN conjunct2, THEN conjunct2, THEN conjunct2, THEN conjunct1]
    by (simp add: records_store2 bob_def)
  have f: "updateUser (Some 3) carol store2 = (Inr None, store2)"
    using T3[THEN conjunct2, THEN conjunct2, THEN conjunct2, THEN conjunct2, THEN conjunct2]
    by (simp add: records_store2)
  from h a b c d f show ?thesis by (intro conjI) simp_all
qed


section \<open>List order (C6)\<close>

text \<open>
  C6. On a ready store, \<open>getAllUsers\<close> returns all records, each once, with their
  timestamps in descending order; an empty store gives the empty list, and three records
  created at \<open>t1 < t2 < t3\<close> come back as third, second, first.
\<close>

theorem getAllUsers_newest_first:
  assumes "ready st"
  shows "\<exists>us ts. getAllUsers st = Inr us \<and> mset us = mset (records st) \<and>
           map created_at us = map Some ts \<and> sorted_wrt (\<lambda>a b. b \<le> a) ts \<and>
           (records st = [] \<longrightarrow> us = []) \<and>
           (\<forall>r1 r2 r3 t1 t2 t3.
              records st = [r1, r2, r3] \<and> created_at r1 = Some t1 \<and> created_at r2 = Some t2 \<and>
              created_at r3 = Some t3 \<and> t1 < t2 \<and> t2 < t3 \<longrightarrow> us = [r3, r2, r1])"
proof -
  let ?us = "foldr insert_desc (records st) []"
  let ?ts = "map (\<lambda>r. sort_key r - 1) ?us"
  have g: "getAllUsers st = Inr ?us" by (rule getAllUsers_ready[OF assms])
  have m: "mset ?us = mset (records st)" by (rule mset_order_by)
  have "set ?us = set (records st)" using m by (rule mset_eq_setD)
  then have "\<forall>r\<in>set ?us. created_at r = Some (sort_key r - 1)"
    using ready_created_at[OF assms] by blast
  then have c: "map created_at ?us = map Some ?ts" by simp
  have "sorted_wrt (\<lambda>a b. sort_key b - 1 \<le> sort_key a - 1) ?us"
    by (rule sorted_wrt_mono_rel[OF _ sorted_order_by]) simp
  then have s: "sorted_wrt (\<lambda>a b. b \<le> a) ?ts" by (simp add: sorted_wrt_map)
  have e: "records st = [] \<longrightarrow> ?us = []" by simp
  have t: "\<forall>r1 r2 r3 t1 t2 t3.
              records st = [r1, r2, r3] \<and> created_at r1 = Some t1 \<and> created_at r2 = Some t2 \<and>
              created_at r3 = Some t3 \<and> t1 < t2 \<and> t2 < t3 \<longrightarrow> ?us = [r3, r2, r1]"
    by (simp add: sort_key_def)
  from g m c s e t show ?thesis by blast
qed

theorem getAllUsers_newest_first_witness:
  "ready store3 \<and>
   getAllUsers store3 =
     Inr [\<lparr>name = ''Carol'', email = ''carol@x.com'', id' = Some 3, created_at = Some 9\<rparr>,
          \<lparr>name = ''Bob'', email = ''bob@x.com'', id' = Some 2, created_at = Some 7\<rparr>,
          \<lparr>name = ''Ann'', email = ''ann@x.com'', id' = Some 1, created_at = Some 5\<rparr>]"
proof -
  have h: "ready store3" by (rule ready_store3)
  from getAllUsers_newest_first[OF h] obtain us where
    g: "getAllUsers store3 = Inr us" and
    t: "\<forall>r1 r2 r3 t1 t2 t3.
              records store3 = [r1, r2, r3] \<and> created_at r1 = Some t1 \<and> created_at r2 = Some t2 \<and>
              created_at r3 = Some t3 \<and> t1 < t2 \<and> t2 < t3 \<longrightarrow> us = [r3, r2, r1]"
    by blast
  have "us = [\<lparr>name = ''Carol'', email = ''carol@x.com'', id' = Some 3, created_at = Some 9\<rparr>,
          \<lparr>name = ''Bob'', email = ''bob@x.com'', id' = Some 2, created_at = Some 7\<rparr>,
          \<lparr>name = ''Ann'', email = ''ann@x.com'', id' = Some 1, created_at = Some 5\<rparr>]"
    using t[rule_format, of _ _ _ 5 7 9] by (simp add: records_store3)
  with g h show ?thesis by simp
qed


section \<open>Validation at the HTTP layer (C7)\<close>

text \<open>
  C7. A create or update request whose name or email is missing or empty is answered with
  400 and the store is returned as it was, whatever the store is: the service is not
  called (on a store without \<open>db\<close> any call of the service would throw).
\<close>

theorem missing_field_rejected:
  assumes "falsy (body_name b) \<or> falsy (body_email b)"
  shows "router_post now b st =
           (\<lparr>status = 400, body = ErrorJson ''Name and email are required''\<rparr>, st) \<and>
         router_put p b st =
           (\<lparr>status = 400, body = ErrorJson ''Name and email are required''\<rparr>, st)"
  using assms by (simp add: router_post_def router_put_def)

theorem missing_field_rejected_witness:
  "(falsy (body_name \<lparr>body_name = Some ''Ann'', body_email = None\<rparr>) \<or>
    falsy (body_email \<lparr>body_name = Some ''Ann'', body_email = None\<rparr>)) \<and>
   router_post 9 \<lparr>body_name = Some ''Ann'', body_email = None\<rparr> \<lparr>db = False, users = None\<rparr> =
     (\<lparr>status = 400, body = ErrorJson ''Name and email are required''\<rparr>, \<lparr>db = False, users = None\<rparr>) \<and>
   router_put ''1'' \<lparr>body_name = Some ''Ann'', body_email = None\<rparr> \<lparr>db = False, users = None\<rparr> =
     (\<lparr>status = 400, body = ErrorJson ''Name and email are required''\<rparr>, \<lparr>db = False, users = None\<rparr>)"
proof -
  have h: "falsy (body_name \<lparr>body_name = Some ''Ann'', body_email = None\<rparr>) \<or>
    falsy (body_email \<lparr>body_name = Some ''Ann'', body_email = None\<rparr>)"
    by (simp add: falsy_def)
  show ?thesis
    by (intro conjI h missing_field_rejected[OF h, THEN conjunct1]
        missing_field_rejected[OF h, THEN conjunct2])
qed


section \<open>Update keeping the own email (C9)\<close>

text \<open>
  C9. On a ready store the only failure of \<open>updateUser\<close> is the uniqueness violation on
  \<open>email\<close>, and it occurs only when a record with another id has the new email;
  updating a record with its own current email succeeds and returns the record with the
  new name.
\<close>

theorem update_unique_violation:
  assumes "ready st"
  shows "(\<forall>err. fst (updateUser i u st) = Inl err \<longrightarrow>
            err = UniqueFailed ''email'' \<and>
            (\<exists>q\<in>set (records st). email q = email u \<and> id' q \<noteq> i)) \<and>
         (\<forall>r\<in>set (records st). id' r = i \<and> email r = email u \<longrightarrow>
            fst (updateUser i u st) = Inr (Some (r\<lparr>name := name u\<rparr>)))"
proof -
  from updateUser_ready[OF assms, of i u] obtain t where
    t: "users st = Some t" and
    eq: "updateUser i u st =
             (if (\<exists>r\<in>set (rows t). matches i r) \<and>
                 (\<exists>q\<in>set (rows t). \<not> matches i q \<and> email (snd q) = email u)
              then (Inl (UniqueFailed ''email''), st)
              else (getUserById i (st\<lparr>users := Some (t\<lparr>rows := map (update_row u i) (rows t)\<rparr>)\<rparr>),
                    st\<lparr>users := Some (t\<lparr>rows := map (update_row u i) (rows t)\<rparr>)\<rparr>))"
    by blast
  let ?st1 = "st\<lparr>users := Some (t\<lparr>rows := map (update_row u i) (rows t)\<rparr>)\<rparr>"
  let ?C = "(\<exists>r\<in>set (rows t). matches i r) \<and>
           (\<exists>q\<in>set (rows t). \<not> matches i q \<and> email (snd q) = email u)"
  let ?up = "updateUser i u st"
  have wf: "wf_rows (rows t) (seq t)"
    using assms t by (simp add: ready_def)
  have recs: "records st = map snd (rows t)"
    using t by (simp add: records_def)
  have A: "\<forall>err. fst ?up = Inl err \<longrightarrow>
            err = UniqueFailed ''email'' \<and>
            (\<exists>q\<in>set (records st). email q = email u \<and> id' q \<noteq> i)"
  proof (cases ?C)
    case True
    have e: "?up = (Inl (UniqueFailed ''email''), st)"
      unfolding eq using True by (rule if_P)
    from True obtain r q where "matches i r" and q: "q \<in> set (rows t)" "\<not> matches i q"
        "email (snd q) = email u"
      by blast
    then have "i \<noteq> None" by (simp add: matches_def)
    then have "id' (snd q) \<noteq> i" using q(2) by (simp add: matches_def)
    moreover have "snd q \<in> set (records st)" using q(1) by (simp add: recs)
    ultimately have "\<exists>q\<in>set (records st). email q = email u \<and> id' q \<noteq> i"
      using q(3) by blast
    then show ?thesis by (simp add: e)
  next
    case False
    have e: "?up = (getUserById i ?st1, ?st1)"
      unfolding eq using False by (rule if_not_P)
    have "ready (snd ?up)" by (rule ready_updateUser[OF assms])
    then have "ready ?st1" by (simp add: e)
    then have "\<exists>v. getUserById i ?st1 = Inr v" by (simp add: getUserById_ready)
    then show ?thesis unfolding e by auto
  qed
  have B: "\<forall>r\<in>set (records st). id' r = i \<and> email r = email u \<longrightarrow>
            fst ?up = Inr (Some (r\<lparr>name := name u\<rparr>))"
  proof (intro ballI impI)
    fix r assume rin: "r \<in> set (records st)" and h: "id' r = i \<and> email r = email u"
    then obtain q where q: "q \<in> set (rows t)" "r = snd q"
      by (auto simp add: recs)
    have "id' (snd q) \<noteq> None"
      using wf q(1) by (auto simp add: wf_rows_def list_all_iff)
    then have m: "matches i q" using h q(2) by (auto simp add: matches_def)
    have em: "email (snd q) = email u" using h q(2) by simp
    have nc: "\<not> ?C" by (rule own_email_no_conflict[OF wf q(1) m em])
    have e: "?up = (getUserById i ?st1, ?st1)"
      unfolding eq using nc by (rule if_not_P)
    have "getUserById i ?st1 = Inr (Some ((snd q)\<lparr>name := name u, email := email u\<rparr>))"
      by (rule getUserById_updated[OF assms t q(1) m nc])
    moreover have "(snd q)\<lparr>name := name u, email := email u\<rparr> = r\<lparr>name := name u\<rparr>"
      using em q(2) by simp
    ultimately show "fst ?up = Inr (Some (r\<lparr>name := name u\<rparr>))"
      by (simp add: e)
  qed
  from A B show ?thesis by (intro conjI)
qed

theorem update_unique_violation_witness:
  "ready store2 \<and>
   fst (updateUser (Some 1) \<lparr>name = ''Anna'', email = ''ann@x.com''\<rparr> store2) =
     Inr (Some \<lparr>name = ''Anna'', email = ''ann@x.com'', id' = Some 1, created_at = Some 5\<rparr>)"
proof -
  have h: "ready store2" by (rule ready_store2)
  have "fst (updateUser (Some 1) \<lparr>name = ''Anna'', email = ''ann@x.com''\<rparr> store2) =
     Inr (Some \<lparr>name = ''Anna'', email = ''ann@x.com'', id' = Some 1, created_at = Some 5\<rparr>)"
    using update_unique_violation[OF h, of "Some 1" "\<lparr>name = ''Anna'', email = ''ann@x.com''\<rparr>",
        THEN conjunct2]
    by (simp add: records_store2)
  with h show ?thesis by (intro conjI)
qed


section \<open>Get by an id that is not a number (C10)\<close>

text \<open>
  C10. When \<open>parseInt\<close> of the path parameter is \<open>NaN\<close>, the lookup on a ready store
  returns absent and the handler answers 404 \<open>User not found\<close>. (The lookup and the
  handler read the store only: they return no new store.)
\<close>

theorem get_by_unparseable_id:
  assumes "ready st" "parseInt p = None"
  shows "getUserById (parseInt p) st = Inr None \<and>
         router_get_id p st = \<lparr>status = 404, body = ErrorJson ''User not found''\<rparr>"
  using assms by (simp add: router_get_id_def getUserById_ready)

theorem get_by_unparseable_id_witness:
  "ready store1 \<and> parseInt ''abc'' = None \<and>
   getUserById (parseInt ''abc'') store1 = Inr None \<and>
   router_get_id ''abc'' store1 = \<lparr>status = 404, body = ErrorJson ''User not found''\<rparr>"
proof -
  have h1: "ready store1" by (rule ready_store1)
  have h2: "parseInt ''abc'' = None"
    by (simp add: parseInt_def is_space_def digit_val_def)
  show ?thesis
    by (intro conjI h1 h2 get_by_unparseable_id[OF h1 h2, THEN conjunct1]
        get_by_unparseable_id[OF h1 h2, THEN conjunct2])
qed

end
